theory Spec2Isabelle
  imports Main "HOL-Library.Multiset"
begin

section \<open>QtGuidedUI: the step sequencer and the tooltip positioner\<close>

text \<open>
  A shallow embedding of \<^verbatim>\<open>QtGuidedUI/core.py\<close>. The class \<^verbatim>\<open>InteractiveGuide\<close> becomes a
  record of its attributes; the host widget tree it borrows from the toolkit becomes an
  explicit \<open>host\<close> state that every method takes and returns; the effects a method has on
  the screen and on the logger are returned as a list of events, in program order.
\<close>

subsection \<open>Configuration data\<close>

text \<open>
  A step of the JSON configuration. \<^verbatim>\<open>order\<close>, \<^verbatim>\<open>image\<close> and \<^verbatim>\<open>pre_action\<close> may be absent
  (the source reads them with \<^verbatim>\<open>dict.get\<close>), so they are options.
\<close>

record step =
  order :: "int option"
  object_name :: string
  description :: string
  image :: "string option"
  pre_action :: "string option"

text \<open>The loaded JSON document; every key is read with \<^verbatim>\<open>guide_data.get(key, default)\<close>.\<close>

record guide_data =
  data_steps :: "step list option"
  data_intro_message :: "string option"
  data_outro_message :: "string option"
  data_dialog_image_width :: "int option"

subsection \<open>The host widget and its toolkit\<close>

text \<open>
  Widgets are object identities. The host state holds what the guide reads and writes
  through the toolkit: \<^verbatim>\<open>findChild(QWidget, name)\<close>, \<^verbatim>\<open>objectName()\<close>, and
  \<^verbatim>\<open>styleSheet()\<close> / \<^verbatim>\<open>setStyleSheet(s)\<close>. It also holds the truth value Python gives
  a widget object (\<^verbatim>\<open>bool(widget)\<close>), which \<^verbatim>\<open>restore_widget_style\<close> tests: a binding
  that gives container widgets a length makes an empty one falsy.
\<close>

type_synonym widget = nat

record host =
  find_child :: "string \<Rightarrow> widget option"
  widget_object_name :: "widget \<Rightarrow> string"
  style_sheet :: "widget \<Rightarrow> string"
  widget_truthy :: "widget \<Rightarrow> bool"

text \<open>
  \<^verbatim>\<open>getattr(self.parent_widget, pre_action, None)\<close>: the attribute is absent (\<open>None\<close>), is
  a value that is not callable, or is a zero-argument method. A method acts on the host
  and either returns or raises an \<^verbatim>\<open>Exception\<close> with a message, after whatever it has
  already done to the host. Methods act on the host only; they do not reach into the
  guide object.
\<close>

datatype attribute =
  Plain_value
| Method "host \<Rightarrow> host \<times> string option"

type_synonym attributes = "string \<Rightarrow> attribute option"

subsection \<open>Events\<close>

text \<open>
  What a method does to the screen and the logger, in order. \<open>Visit\<close> is not an effect:
  it marks the read \<^verbatim>\<open>step = self.steps[self.current_step_index]\<close>, so that the order in
  which steps are processed can be stated. \<open>Highlighted\<close> and \<open>Restored\<close> are the two calls
  of \<^verbatim>\<open>setStyleSheet\<close>, in \<^verbatim>\<open>highlight_widget\<close> and in \<^verbatim>\<open>restore_widget_style\<close>.
  \<open>Step_tooltip\<close> stands for all of \<^verbatim>\<open>show_step_tooltip\<close>: the dialog is built, moved to
  the position computed by \<^verbatim>\<open>_calculate_tooltip_position\<close> (modelled on its own below) and
  shown without blocking.
\<close>

datatype event =
  Message_dialog string string string
| Visit step
| Info_executing_pre_action string
| Pre_action_called string
| Warn_pre_action_failed string string
| Warn_pre_action_not_callable string
| Warn_widget_not_found string
| Info_highlighting string
| Highlighted widget
| Info_restoring string
| Restored widget string
| Warn_no_style_to_restore
| Step_tooltip widget step
| Dialog_accepted
| Dialog_closed
| Tool_tip_text string

subsection \<open>The guide\<close>

record guide =
  steps :: "step list"
  intro_message :: string
  outro_message :: string
  dialog_image_width :: int
  images_dir :: string
  current_step_index :: int
  current_widget :: "widget option"
  current_widget_original_style :: "string option"

text \<open>The sort key \<^verbatim>\<open>lambda x: x.get("order", 0)\<close>.\<close>

definition order_key :: "step \<Rightarrow> int" where
  "order_key s = (case order s of None \<Rightarrow> 0 | Some k \<Rightarrow> k)"

text \<open>
  \<^verbatim>\<open>InteractiveGuide.__init__\<close>. Python's \<^verbatim>\<open>sorted\<close> is stable, as \<open>sort_key\<close> is.
\<close>

definition init_guide :: "guide_data \<Rightarrow> string \<Rightarrow> guide" where
  "init_guide gd dir =
     \<lparr> steps = sort_key order_key (case data_steps gd of None \<Rightarrow> [] | Some ss \<Rightarrow> ss),
       intro_message =
         (case data_intro_message gd of None \<Rightarrow> ''Welcome to the guide!'' | Some m \<Rightarrow> m),
       outro_message =
         (case data_outro_message gd of None \<Rightarrow> ''Guide completed!'' | Some m \<Rightarrow> m),
       dialog_image_width =
         (case data_dialog_image_width gd of None \<Rightarrow> 500 | Some w \<Rightarrow> w),
       images_dir = dir,
       current_step_index = - 1,
       current_widget = None,
       current_widget_original_style = None \<rparr>"

text \<open>
  Python list indexing with an integer that may be negative: a negative index counts
  from the end, and an index out of range raises \<^verbatim>\<open>IndexError\<close> (\<open>None\<close> here).
\<close>

definition py_index :: "'a list \<Rightarrow> int \<Rightarrow> 'a option" where
  "py_index xs i =
     (let n = int (length xs); j = (if i < 0 then n + i else i)
      in if 0 \<le> j \<and> j < n then Some (xs ! nat j) else None)"

text \<open>\<^verbatim>\<open>highlight_widget\<close>: remember the widget and its style sheet, then override the style.\<close>

definition highlight_widget :: "guide \<Rightarrow> host \<Rightarrow> widget \<Rightarrow> guide \<times> host \<times> event list" where
  "highlight_widget g h w =
     (g\<lparr>current_widget := Some w, current_widget_original_style := Some (style_sheet h w)\<rparr>,
      h\<lparr>style_sheet := (style_sheet h)(w := ''border: 3px solid green;'')\<rparr>,
      [Info_highlighting (widget_object_name h w), Highlighted w])"

text \<open>
  \<^verbatim>\<open>restore_widget_style\<close>. The test is
  \<^verbatim>\<open>self.current_widget and self.current_widget_original_style is not None\<close>: its first
  operand is the truth value of the widget, not a comparison with \<^verbatim>\<open>None\<close>, so it fails
  when no widget is held and also when the held widget is falsy. In the \<^verbatim>\<open>else\<close> branch
  only the warning is logged; both attributes and the style stay as they are.
\<close>

definition restore_widget_style :: "guide \<Rightarrow> host \<Rightarrow> guide \<times> host \<times> event list" where
  "restore_widget_style g h =
     (case current_widget g of
        None \<Rightarrow> (g, h, [Warn_no_style_to_restore])
      | Some w \<Rightarrow>
          if widget_truthy h w then
            (case current_widget_original_style g of
               None \<Rightarrow> (g, h, [Warn_no_style_to_restore])
             | Some s \<Rightarrow>
                 (g\<lparr>current_widget := None, current_widget_original_style := None\<rparr>,
                  h\<lparr>style_sheet := (style_sheet h)(w := s)\<rparr>,
                  [Info_restoring (widget_object_name h w), Restored w s]))
          else (g, h, [Warn_no_style_to_restore]))"

text \<open>
  The pre-action block of \<^verbatim>\<open>next_step\<close> (the lines under \<^verbatim>\<open># Execute pre-action if
  defined\<close>). An absent or empty \<^verbatim>\<open>pre_action\<close> is falsy and nothing happens.
\<close>

definition run_pre_action :: "attributes \<Rightarrow> step \<Rightarrow> host \<Rightarrow> host \<times> event list" where
  "run_pre_action attrs st h =
     (case pre_action st of
        None \<Rightarrow> (h, [])
      | Some name \<Rightarrow>
          if name = [] then (h, [])
          else (case attrs name of
                  Some (Method f) \<Rightarrow>
                    (case f h of
                       (h', None) \<Rightarrow>
                         (h', [Info_executing_pre_action name, Pre_action_called name])
                     | (h', Some e) \<Rightarrow>
                         (h', [Info_executing_pre_action name, Pre_action_called name,
                               Warn_pre_action_failed name e]))
                | _ \<Rightarrow>
                    (h, [Info_executing_pre_action name, Warn_pre_action_not_callable name])))"

text \<open>
  How a call ends: \<^verbatim>\<open>next_step\<close> shows the completion dialog, shows a step's tooltip,
  raises \<^verbatim>\<open>IndexError\<close>, or raises \<^verbatim>\<open>RecursionError\<close> when the interpreter allows no
  further nested call; \<^verbatim>\<open>start\<close> may also end with the intro dialog dismissed, and
  \<^verbatim>\<open>skip_guide_action\<close> ends the run.
\<close>

datatype outcome =
  Outro_shown | Step_shown | Index_error | Recursion_error | Intro_dismissed | Guide_skipped

text \<open>
  \<^verbatim>\<open>next_step\<close>. The method calls itself after a missing widget, one Python frame deeper
  each time, and the interpreter bounds the depth (\<^verbatim>\<open>sys.getrecursionlimit()\<close>, 1000 unless
  changed). The first argument is the number of nested calls of \<^verbatim>\<open>next_step\<close> the
  interpreter still allows when the method is called: with none left the call raises
  \<^verbatim>\<open>RecursionError\<close>, which nothing on the way up catches, so the guide stays as the
  callers left it. The frames of the calls into the logger and the toolkit are not
  counted.
\<close>

fun next_step_limited :: "nat \<Rightarrow> attributes \<Rightarrow> guide \<Rightarrow> host
    \<Rightarrow> guide \<times> host \<times> event list \<times> outcome" where
  "next_step_limited 0 attrs g h = (g, h, [], Recursion_error)"
| "next_step_limited (Suc d) attrs g h =
     (let g1 = g\<lparr>current_step_index := current_step_index g + 1\<rparr> in
      if int (length (steps g1)) \<le> current_step_index g1 then
        (g1, h, [Message_dialog ''Guide Completed'' (outro_message g1) ''Close''], Outro_shown)
      else
        (case py_index (steps g1) (current_step_index g1) of
           None \<Rightarrow> (g1, h, [], Index_error)
         | Some st \<Rightarrow>
             (let pa = run_pre_action attrs st h; h1 = fst pa in
              case find_child h1 (object_name st) of
                None \<Rightarrow>
                  (let r = next_step_limited d attrs g1 h1 in
                   (fst r, fst (snd r),
                    Visit st # snd pa @ Warn_widget_not_found (object_name st) # fst (snd (snd r)),
                    snd (snd (snd r))))
              | Some w \<Rightarrow>
                  (let hl = highlight_widget g1 h1 w in
                   (fst hl, fst (snd hl),
                    Visit st # snd pa @ snd (snd hl) @ [Step_tooltip w st],
                    Step_shown)))))"

declare next_step_limited.simps(2) [simp del]

text \<open>
  \<^verbatim>\<open>next_step\<close> where the interpreter's depth suffices: every call moves the cursor one
  step towards the end of the list, so one call for each step still ahead of the cursor
  and one for the completion dialog are always enough. The methods that call
  \<^verbatim>\<open>next_step\<close>, and the runs built from them below, are modelled at this depth.
\<close>

definition next_step :: "attributes \<Rightarrow> guide \<Rightarrow> host \<Rightarrow> guide \<times> host \<times> event list \<times> outcome" where
  "next_step attrs g h =
     next_step_limited (Suc (nat (int (length (steps g)) - current_step_index g))) attrs g h"

text \<open>
  \<^verbatim>\<open>show_message_dialog\<close> runs a modal dialog. The user presses its button, and then
  \<^verbatim>\<open>on_button_clicked\<close> accepts the dialog and calls the callback, or closes the dialog
  some other way, and then nothing is called.
\<close>

datatype dialog_response = Button_clicked | Dismissed

text \<open>\<^verbatim>\<open>start\<close>: the intro dialog, with \<^verbatim>\<open>next_step\<close> as its callback.\<close>

definition start :: "attributes \<Rightarrow> dialog_response \<Rightarrow> guide \<Rightarrow> host \<Rightarrow> guide \<times> host \<times> event list \<times> outcome" where
  "start attrs resp g h =
     (case resp of
        Dismissed \<Rightarrow>
          (g, h, [Message_dialog ''Interactive Guide'' (intro_message g) ''Start''],
           Intro_dismissed)
      | Button_clicked \<Rightarrow>
          (case next_step attrs g h of
             (g', h', evs, oc) \<Rightarrow>
               (g', h',
                Message_dialog ''Interactive Guide'' (intro_message g) ''Start''
                  # Dialog_accepted # evs,
                oc)))"

text \<open>\<^verbatim>\<open>next_step_action\<close>, the slot of a tooltip's "Next" button.\<close>

definition next_step_action :: "attributes \<Rightarrow> guide \<Rightarrow> host \<Rightarrow> guide \<times> host \<times> event list \<times> outcome" where
  "next_step_action attrs g h =
     (case restore_widget_style g h of
        (g1, h1, evs1) \<Rightarrow>
          (case next_step attrs g1 h1 of
             (g2, h2, evs2, oc) \<Rightarrow> (g2, h2, Dialog_accepted # evs1 @ evs2, oc)))"

text \<open>\<^verbatim>\<open>skip_guide_action\<close>, the slot of a tooltip's "Skip Guide" button.\<close>

definition skip_guide_action :: "guide \<Rightarrow> host \<Rightarrow> guide \<times> host \<times> event list \<times> outcome" where
  "skip_guide_action g h =
     (case restore_widget_style g h of
        (g1, h1, evs1) \<Rightarrow>
          (g1, h1, Dialog_closed # evs1 @ [Tool_tip_text ''Guide skipped.''], Guide_skipped))"

subsection \<open>A guide run\<close>

text \<open>
  A run is driven by the user through the dialogs the guide shows: the intro dialog of
  \<^verbatim>\<open>start\<close>, then the buttons of the tooltip that is open. \<^verbatim>\<open>show_step_tooltip\<close>
  connects "Next" to \<^verbatim>\<open>next_step_action\<close> and "Skip Guide" to \<^verbatim>\<open>skip_guide_action\<close>; both
  slots close the tooltip, so a button can be pressed only while its tooltip is the one on
  screen, that is, after a call that ended with \<open>Step_shown\<close>. A run is one call of
  \<^verbatim>\<open>start\<close> on a fresh guide; calling \<^verbatim>\<open>start\<close> again while a tooltip is open is not
  part of it and is looked at on its own below.
\<close>

datatype user_input = Click_next | Click_skip

fun run_inputs :: "attributes \<Rightarrow> user_input list \<Rightarrow> guide \<times> host \<times> event list \<times> outcome
    \<Rightarrow> guide \<times> host \<times> event list \<times> outcome" where
  "run_inputs attrs [] s = s"
| "run_inputs attrs (u # us) (g, h, evs, oc) =
     (if oc = Step_shown then
        (case (case u of Click_next \<Rightarrow> next_step_action attrs g h
                       | Click_skip \<Rightarrow> skip_guide_action g h) of
           (g', h', evs', oc') \<Rightarrow> run_inputs attrs us (g', h', evs @ evs', oc'))
      else (g, h, evs, oc))"

definition guide_run :: "attributes \<Rightarrow> guide_data \<Rightarrow> string \<Rightarrow> host \<Rightarrow> dialog_response
    \<Rightarrow> user_input list \<Rightarrow> guide \<times> host \<times> event list \<times> outcome" where
  "guide_run attrs gd dir h resp inputs =
     run_inputs attrs inputs (start attrs resp (init_guide gd dir) h)"


text \<open>
  The widgets whose style is overridden after a list of events, given those overridden
  before: \<^verbatim>\<open>highlight_widget\<close> adds one, \<^verbatim>\<open>restore_widget_style\<close> takes one away.
\<close>

fun overridden :: "widget list \<Rightarrow> event list \<Rightarrow> widget list" where
  "overridden ws [] = ws"
| "overridden ws (Highlighted w # evs) = overridden (w # ws) evs"
| "overridden ws (Restored w s # evs) = overridden (remove1 w ws) evs"
| "overridden ws (_ # evs) = overridden ws evs"

text \<open>At every point of a list of events, at most one widget is overridden.\<close>

fun at_most_one_highlighted :: "widget list \<Rightarrow> event list \<Rightarrow> bool" where
  "at_most_one_highlighted ws [] = (length ws \<le> 1)"
| "at_most_one_highlighted ws (e # evs) =
     (length ws \<le> 1 \<and> at_most_one_highlighted (overridden ws [e]) evs)"


text \<open>
  The host as the pre-actions alone leave it: the methods called in a list of events,
  applied in order to a host, with no style overridden or restored by the guide.
\<close>

fun pre_actions_only :: "attributes \<Rightarrow> host \<Rightarrow> event list \<Rightarrow> host" where
  "pre_actions_only attrs h [] = h"
| "pre_actions_only attrs h (Pre_action_called name # evs) =
     pre_actions_only attrs (case attrs name of Some (Method f) \<Rightarrow> fst (f h) | _ \<Rightarrow> h) evs"
| "pre_actions_only attrs h (_ # evs) = pre_actions_only attrs h evs"

text \<open>
  Every widget of a host is truthy, and the methods of the host keep it so.
\<close>

definition all_truthy :: "host \<Rightarrow> bool" where
  "all_truthy h = (\<forall>w. widget_truthy h w)"

definition methods_keep_truthy :: "attributes \<Rightarrow> bool" where
  "methods_keep_truthy attrs =
     (\<forall>name f h. attrs name = Some (Method f) \<longrightarrow> all_truthy h \<longrightarrow> all_truthy (fst (f h)))"

subsection \<open>Tooltip geometry\<close>

text \<open>
  The toolkit's integer geometry, as far as \<^verbatim>\<open>_calculate_tooltip_position\<close> uses it.
  A \<^verbatim>\<open>QRect\<close> stores its corners; its right and bottom are \<open>left + width - 1\<close> and
  \<open>top + height - 1\<close>, and its centre is computed with the truncating division of C++.
  \<^verbatim>\<open>mapToGlobal\<close> translates a point of the widget by the widget's global origin.
\<close>

type_synonym qpoint = "int \<times> int"

record qrect =
  rect_x1 :: int
  rect_y1 :: int
  rect_x2 :: int
  rect_y2 :: int

record widget_geometry =
  global_origin :: qpoint
  geo_width :: int
  geo_height :: int

definition cpp_div :: "int \<Rightarrow> int \<Rightarrow> int" where
  "cpp_div a b = sgn a * sgn b * (\<bar>a\<bar> div \<bar>b\<bar>)"

definition rect :: "widget_geometry \<Rightarrow> qrect" where
  "rect wg = \<lparr>rect_x1 = 0, rect_y1 = 0, rect_x2 = geo_width wg - 1, rect_y2 = geo_height wg - 1\<rparr>"

definition rect_width :: "qrect \<Rightarrow> int" where
  "rect_width r = rect_x2 r - rect_x1 r + 1"

definition rect_height :: "qrect \<Rightarrow> int" where
  "rect_height r = rect_y2 r - rect_y1 r + 1"

definition center :: "qrect \<Rightarrow> qpoint" where
  "center r = (cpp_div (rect_x1 r + rect_x2 r) 2, cpp_div (rect_y1 r + rect_y2 r) 2)"

definition top_left :: "qrect \<Rightarrow> qpoint" where
  "top_left r = (rect_x1 r, rect_y1 r)"

definition bottom_left :: "qrect \<Rightarrow> qpoint" where
  "bottom_left r = (rect_x1 r, rect_y2 r)"

definition map_to_global :: "widget_geometry \<Rightarrow> qpoint \<Rightarrow> qpoint" where
  "map_to_global wg p = (fst (global_origin wg) + fst p, snd (global_origin wg) + snd p)"

text \<open>
  \<^verbatim>\<open>_calculate_tooltip_position\<close>, from the geometry of the target widget, the geometry of
  the host widget and the size of the dialog. Python's \<^verbatim>\<open>//\<close> rounds down, as \<open>div\<close> does.
\<close>

definition calculate_tooltip_position :: "widget_geometry \<Rightarrow> widget_geometry \<Rightarrow> int \<times> int \<Rightarrow> qpoint" where
  "calculate_tooltip_position widget parent dialog_size =
     (let widget_rect = rect widget;
          widget_center = map_to_global widget (center widget_rect);
          parent_rect = rect parent;
          parent_global_pos = map_to_global parent (top_left parent_rect);
          parent_center = (fst parent_global_pos + rect_width parent_rect div 2,
                           snd parent_global_pos + rect_height parent_rect div 2);
          x = fst widget_center - fst dialog_size div 2;
          y = (if snd widget_center < snd parent_center
               then snd (map_to_global widget (bottom_left widget_rect)) + 10
               else snd (map_to_global widget (top_left widget_rect)) - snd dialog_size - 10);
          x' = (if x < fst parent_global_pos then fst parent_global_pos + 10
                else if x + fst dialog_size > fst parent_global_pos + rect_width parent_rect
                then fst parent_global_pos + rect_width parent_rect - fst dialog_size - 10
                else x)
      in (x', y))"

text \<open>
  The two failing branches of the pre-action block: the named attribute is not callable
  (or absent), or calling it raises.
\<close>

definition pre_action_fails :: "attributes \<Rightarrow> step \<Rightarrow> host \<Rightarrow> bool" where
  "pre_action_fails attrs st h =
     (case pre_action st of
        None \<Rightarrow> False
      | Some name \<Rightarrow>
          name \<noteq> [] \<and>
          (case attrs name of Some (Method f) \<Rightarrow> snd (f h) \<noteq> None | _ \<Rightarrow> True))"

subsection \<open>A sample host and configuration\<close>

text \<open>
  The host of \<^verbatim>\<open>sample/sample.py\<close>: three named widgets (\<^verbatim>\<open>btnSave\<close>, \<^verbatim>\<open>mainTabs\<close>,
  \<^verbatim>\<open>tabSettings\<close>) with empty style sheets, the method \<^verbatim>\<open>show_settings_tab\<close> (it marks the
  tab widget and returns), the attribute \<^verbatim>\<open>guide_config_path\<close> (a string, not callable),
  and a method \<^verbatim>\<open>fail\<close> that raises. The configuration lists three steps out of order:
  one for a widget that exists, one with a pre-action for a widget that does not exist, and
  one whose pre-action names no attribute of the host.
\<close>

definition sample_host :: host where
  "sample_host =
     \<lparr> find_child = (\<lambda>n. if n = ''btnSave'' then Some 1
                         else if n = ''mainTabs'' then Some 2
                         else if n = ''tabSettings'' then Some 3 else None),
       widget_object_name = (\<lambda>w. if w = 1 then ''btnSave''
                                 else if w = 2 then ''mainTabs''
                                 else if w = 3 then ''tabSettings'' else []),
       style_sheet = (\<lambda>w. []),
       widget_truthy = (\<lambda>w. True) \<rparr>"

definition show_settings_tab :: "host \<Rightarrow> host \<times> string option" where
  "show_settings_tab h = (h\<lparr>style_sheet := (style_sheet h)(2 := ''selected'')\<rparr>, None)"

definition sample_attrs :: attributes where
  "sample_attrs =
     (\<lambda>n. if n = ''show_settings_tab'' then Some (Method show_settings_tab)
          else if n = ''guide_config_path'' then Some Plain_value
          else if n = ''fail'' then Some (Method (\<lambda>h. (h, Some ''boom'')))
          else None)"

definition step_save :: step where
  "step_save = \<lparr> order = Some 1, object_name = ''btnSave'', description = ''Save your work'',
                 image = None, pre_action = None \<rparr>"

definition step_export :: step where
  "step_export = \<lparr> order = Some 2, object_name = ''btnExport'', description = ''Export'',
                   image = None, pre_action = Some ''show_settings_tab'' \<rparr>"

definition step_settings :: step where
  "step_settings = \<lparr> order = Some 3, object_name = ''tabSettings'', description = ''Settings'',
                     image = None, pre_action = Some ''no_such_method'' \<rparr>"

definition sample_data :: guide_data where
  "sample_data =
     \<lparr> data_steps = Some [step_settings, step_save, step_export],
       data_intro_message = None, data_outro_message = None,
       data_dialog_image_width = None \<rparr>"

definition sample_guide :: guide where
  "sample_guide = init_guide sample_data ''config''"

text \<open>
  The same host with one more widget, an empty combo box that the binding makes falsy,
  and a step for a widget that no host has.
\<close>

definition combo_host :: host where
  "combo_host =
     sample_host\<lparr> find_child := (find_child sample_host)(''cmbPresets'' := Some 4),
                  widget_object_name := (widget_object_name sample_host)(4 := ''cmbPresets''),
                  widget_truthy := (\<lambda>w. w \<noteq> 4) \<rparr>"


subsection \<open>Unfolding \<^verbatim>\<open>next_step\<close> by cases\<close>

lemma py_index_in_range: "0 \<le> i \<Longrightarrow> i < int (length xs) \<Longrightarrow> py_index xs i = Some (xs ! nat i)"
  by (simp add: py_index_def)

lemma next_step_limited_outro:
  "int (length (steps g)) \<le> current_step_index g + 1 \<Longrightarrow>
   next_step_limited (Suc d) attrs g h =
     (g\<lparr>current_step_index := current_step_index g + 1\<rparr>, h,
      [Message_dialog ''Guide Completed'' (outro_message g) ''Close''], Outro_shown)"
  by (simp add: next_step_limited.simps(2) Let_def)

lemma next_step_limited_index_error:
  "\<not> int (length (steps g)) \<le> current_step_index g + 1 \<Longrightarrow>
   py_index (steps g) (current_step_index g + 1) = None \<Longrightarrow>
   next_step_limited (Suc d) attrs g h =
     (g\<lparr>current_step_index := current_step_index g + 1\<rparr>, h, [], Index_error)"
  by (simp add: next_step_limited.simps(2) Let_def)

lemma next_step_limited_skip:
  "\<not> int (length (steps g)) \<le> current_step_index g + 1 \<Longrightarrow>
   py_index (steps g) (current_step_index g + 1) = Some st \<Longrightarrow>
   find_child (fst (run_pre_action attrs st h)) (object_name st) = None \<Longrightarrow>
   next_step_limited (Suc d) attrs g h =
     (case next_step_limited d attrs (g\<lparr>current_step_index := current_step_index g + 1\<rparr>)
             (fst (run_pre_action attrs st h)) of
        (g', h', evs, oc) \<Rightarrow>
          (g', h',
           Visit st # snd (run_pre_action attrs st h) @ Warn_widget_not_found (object_name st) # evs,
           oc))"
  by (simp add: next_step_limited.simps(2) Let_def case_prod_beta)

lemma next_step_limited_show:
  "\<not> int (length (steps g)) \<le> current_step_index g + 1 \<Longrightarrow>
   py_index (steps g) (current_step_index g + 1) = Some st \<Longrightarrow>
   find_child (fst (run_pre_action attrs st h)) (object_name st) = Some w \<Longrightarrow>
   next_step_limited (Suc d) attrs g h =
     (case highlight_widget (g\<lparr>current_step_index := current_step_index g + 1\<rparr>)
             (fst (run_pre_action attrs st h)) w of
        (g', h', evs) \<Rightarrow>
          (g', h', Visit st # snd (run_pre_action attrs st h) @ evs @ [Step_tooltip w st],
           Step_shown))"
  by (simp add: next_step_limited.simps(2) Let_def case_prod_beta)

lemma next_step_outro:
  "int (length (steps g)) \<le> current_step_index g + 1 \<Longrightarrow>
   next_step attrs g h =
     (g\<lparr>current_step_index := current_step_index g + 1\<rparr>, h,
      [Message_dialog ''Guide Completed'' (outro_message g) ''Close''], Outro_shown)"
  unfolding next_step_def by (rule next_step_limited_outro)

lemma next_step_index_error:
  "\<not> int (length (steps g)) \<le> current_step_index g + 1 \<Longrightarrow>
   py_index (steps g) (current_step_index g + 1) = None \<Longrightarrow>
   next_step attrs g h = (g\<lparr>current_step_index := current_step_index g + 1\<rparr>, h, [], Index_error)"
  unfolding next_step_def by (rule next_step_limited_index_error)

lemma next_step_skip:
  "\<not> int (length (steps g)) \<le> current_step_index g + 1 \<Longrightarrow>
   py_index (steps g) (current_step_index g + 1) = Some st \<Longrightarrow>
   find_child (fst (run_pre_action attrs st h)) (object_name st) = None \<Longrightarrow>
   next_step attrs g h =
     (case next_step attrs (g\<lparr>current_step_index := current_step_index g + 1\<rparr>)
             (fst (run_pre_action attrs st h)) of
        (g', h', evs, oc) \<Rightarrow>
          (g', h',
           Visit st # snd (run_pre_action attrs st h) @ Warn_widget_not_found (object_name st) # evs,
           oc))"
proof -
  assume n: "\<not> int (length (steps g)) \<le> current_step_index g + 1"
    and p: "py_index (steps g) (current_step_index g + 1) = Some st"
    and f: "find_child (fst (run_pre_action attrs st h)) (object_name st) = None"
  have d: "nat (int (length (steps g)) - current_step_index g)
      = Suc (nat (int (length (steps g)) - (current_step_index g + 1)))"
    using n by simp
  show ?thesis
    unfolding next_step_def
    by (simp add: next_step_limited_skip[OF n p f] d)
qed

lemma next_step_show:
  "\<not> int (length (steps g)) \<le> current_step_index g + 1 \<Longrightarrow>
   py_index (steps g) (current_step_index g + 1) = Some st \<Longrightarrow>
   find_child (fst (run_pre_action attrs st h)) (object_name st) = Some w \<Longrightarrow>
   next_step attrs g h =
     (case highlight_widget (g\<lparr>current_step_index := current_step_index g + 1\<rparr>)
             (fst (run_pre_action attrs st h)) w of
        (g', h', evs) \<Rightarrow>
          (g', h', Visit st # snd (run_pre_action attrs st h) @ evs @ [Step_tooltip w st],
           Step_shown))"
  unfolding next_step_def by (rule next_step_limited_show)

lemma next_step_cases_induct [case_names outro index_error skip shown]:
  assumes outro: "\<And>attrs g h. int (length (steps g)) \<le> current_step_index g + 1 \<Longrightarrow> P attrs g h"
    and index_error: "\<And>attrs g h.
      \<not> int (length (steps g)) \<le> current_step_index g + 1 \<Longrightarrow>
      py_index (steps g) (current_step_index g + 1) = None \<Longrightarrow> P attrs g h"
    and skip: "\<And>attrs g h st.
      \<not> int (length (steps g)) \<le> current_step_index g + 1 \<Longrightarrow>
      py_index (steps g) (current_step_index g + 1) = Some st \<Longrightarrow>
      find_child (fst (run_pre_action attrs st h)) (object_name st) = None \<Longrightarrow>
      P attrs (g\<lparr>current_step_index := current_step_index g + 1\<rparr>) (fst (run_pre_action attrs st h)) \<Longrightarrow>
      P attrs g h"
    and shown: "\<And>attrs g h st w.
      \<not> int (length (steps g)) \<le> current_step_index g + 1 \<Longrightarrow>
      py_index (steps g) (current_step_index g + 1) = Some st \<Longrightarrow>
      find_child (fst (run_pre_action attrs st h)) (object_name st) = Some w \<Longrightarrow>
      P attrs g h"
  shows "P (attrs :: attributes) (g :: guide) (h :: host)"
proof (induction "nat (int (length (steps g)) - current_step_index g)" arbitrary: g h
    rule: less_induct)
  case (less g h)
  let ?g1 = "g\<lparr>current_step_index := current_step_index g + 1\<rparr>"
  show ?case
  proof (cases "int (length (steps g)) \<le> current_step_index g + 1")
    case True
    then show ?thesis by (rule outro)
  next
    case False
    show ?thesis
    proof (cases "py_index (steps g) (current_step_index g + 1)")
      case None
      with False show ?thesis by (rule index_error)
    next
      case (Some st)
      let ?h1 = "fst (run_pre_action attrs st h)"
      show ?thesis
      proof (cases "find_child ?h1 (object_name st)")
        case None
        have "nat (int (length (steps ?g1)) - current_step_index ?g1)
            < nat (int (length (steps g)) - current_step_index g)"
          using False by simp
        then have "P attrs ?g1 ?h1" by (rule less)
        with False Some None show ?thesis by (rule skip)
      next
        case found: (Some w)
        from False Some found show ?thesis by (rule shown)
      qed
    qed
  qed
qed



lemma next_step_steps: "steps (fst (next_step attrs g h)) = steps g"
  by (induction attrs g h rule: next_step_cases_induct)
     (simp_all add: next_step_outro next_step_index_error next_step_skip next_step_show
        highlight_widget_def case_prod_beta)

lemma next_step_index_grows:
  "current_step_index g < current_step_index (fst (next_step attrs g h))"
  by (induction attrs g h rule: next_step_cases_induct)
     (simp_all add: next_step_outro next_step_index_error next_step_skip next_step_show
        highlight_widget_def case_prod_beta)


lemmas next_step_unfold = next_step_outro next_step_index_error next_step_skip next_step_show

lemma next_step_outro_message: "outro_message (fst (next_step attrs g h)) = outro_message g"
  by (induction attrs g h rule: next_step_cases_induct)
     (simp_all add: next_step_unfold highlight_widget_def case_prod_beta)


lemma py_index_not_None:
  "- 1 \<le> i \<Longrightarrow> \<not> int (length xs) \<le> i + 1 \<Longrightarrow> py_index xs (i + 1) \<noteq> None"
  by (simp add: py_index_def Let_def)

lemma next_step_outcome:
  "- 1 \<le> current_step_index g \<Longrightarrow>
   (snd (snd (snd (next_step attrs g h))) = Outro_shown \<and>
      int (length (steps g)) \<le> current_step_index (fst (next_step attrs g h))) \<or>
   (snd (snd (snd (next_step attrs g h))) = Step_shown \<and>
      current_step_index (fst (next_step attrs g h)) < int (length (steps g)))"
proof (induction attrs g h rule: next_step_cases_induct)
  case (outro attrs g h)
  then show ?case by (simp add: next_step_outro)
next
  case (index_error attrs g h)
  then show ?case using py_index_not_None[of "current_step_index g" "steps g"] by simp
next
  case (skip attrs g h st)
  note eq = next_step_skip[OF skip.hyps(1-3)]
  from skip.IH skip.prems show ?case by (simp add: eq case_prod_beta)
next
  case (shown attrs g h st w)
  note eq = next_step_show[OF shown.hyps(1-3)]
  from shown.hyps(1) show ?case by (simp add: eq case_prod_beta highlight_widget_def)
qed




subsection \<open>Facts about the single methods\<close>

lemma restore_widget_style_guide:
  "steps (fst (restore_widget_style g h)) = steps g"
  "outro_message (fst (restore_widget_style g h)) = outro_message g"
  "current_step_index (fst (restore_widget_style g h)) = current_step_index g"
  by (simp_all add: restore_widget_style_def split: option.splits)


lemma next_step_action_guide:
  "steps (fst (next_step_action attrs g h)) = steps g"
  "outro_message (fst (next_step_action attrs g h)) = outro_message g"
  "current_step_index g < current_step_index (fst (next_step_action attrs g h))"
  using next_step_index_grows[of "fst (restore_widget_style g h)" attrs "fst (snd (restore_widget_style g h))"]
  by (simp_all add: next_step_action_def case_prod_beta next_step_steps next_step_outro_message
        restore_widget_style_guide)

lemma skip_guide_action_guide:
  "steps (fst (skip_guide_action g h)) = steps g"
  "outro_message (fst (skip_guide_action g h)) = outro_message g"
  "current_step_index (fst (skip_guide_action g h)) = current_step_index g"
  "snd (snd (snd (skip_guide_action g h))) = Guide_skipped"
  by (simp_all add: skip_guide_action_def case_prod_beta restore_widget_style_guide)

lemma start_guide:
  "steps (fst (start attrs resp g h)) = steps g"
  "outro_message (fst (start attrs resp g h)) = outro_message g"
  "current_step_index g \<le> current_step_index (fst (start attrs resp g h))"
  using next_step_index_grows[of g attrs h]
  by (simp_all add: start_def case_prod_beta next_step_steps next_step_outro_message
        split: dialog_response.splits)

subsection \<open>Invariants of a run\<close>

lemma run_inputs_stopped:
  "oc \<noteq> Step_shown \<Longrightarrow> run_inputs attrs us (g, h, evs, oc) = (g, h, evs, oc)"
  by (cases us) simp_all

lemma run_inputs_invariant:
  assumes "P s"
    and "\<And>g h evs. P (g, h, evs, Step_shown) \<Longrightarrow>
      P (case next_step_action attrs g h of (g', h', evs', oc') \<Rightarrow> (g', h', evs @ evs', oc'))"
    and "\<And>g h evs. P (g, h, evs, Step_shown) \<Longrightarrow>
      P (case skip_guide_action g h of (g', h', evs', oc') \<Rightarrow> (g', h', evs @ evs', oc'))"
  shows "P (run_inputs attrs us s)"
  using assms(1)
proof (induction us arbitrary: s)
  case Nil
  then show ?case by simp
next
  case (Cons u us)
  obtain g h evs oc where s: "s = (g, h, evs, oc)" by (cases s)
  show ?case
  proof (cases "oc = Step_shown")
    case False
    with Cons.prems s show ?thesis by simp
  next
    case True
    show ?thesis
    proof (cases u)
      case Click_next
      have "P (case next_step_action attrs g h of (g', h', evs', oc') \<Rightarrow> (g', h', evs @ evs', oc'))"
        using Cons.prems s True assms(2) by simp
      from Cons.IH[OF this] show ?thesis
        using s True Click_next by (simp add: case_prod_beta)
    next
      case Click_skip
      have "P (case skip_guide_action g h of (g', h', evs', oc') \<Rightarrow> (g', h', evs @ evs', oc'))"
        using Cons.prems s True assms(3) by simp
      from Cons.IH[OF this] show ?thesis
        using s True Click_skip by (simp add: case_prod_beta)
    qed
  qed
qed


subsection \<open>The order of the visited steps\<close>


subsection \<open>The completion dialog\<close>

lemma count_list_run_pre_action:
  "count_list (snd (run_pre_action attrs st h)) (Message_dialog t m b) = 0"
  by (simp add: run_pre_action_def split: option.splits attribute.splits prod.splits)

lemma count_list_restore_widget_style:
  "count_list (snd (snd (restore_widget_style g h))) (Message_dialog t m b) = 0"
  by (simp add: restore_widget_style_def split: option.splits)

lemma next_step_count_outro:
  "count_list (fst (snd (snd (next_step attrs g h))))
     (Message_dialog ''Guide Completed'' (outro_message g) ''Close'')
   = (if snd (snd (snd (next_step attrs g h))) = Outro_shown then 1 else 0)"
proof (induction attrs g h rule: next_step_cases_induct)
  case (outro attrs g h)
  then show ?case by (simp add: next_step_outro)
next
  case (index_error attrs g h)
  then show ?case by (simp add: next_step_index_error)
next
  case (skip attrs g h st)
  note eq = next_step_skip[OF skip.hyps(1-3)]
  from skip.IH show ?case by (simp add: eq case_prod_beta count_list_run_pre_action)
next
  case (shown attrs g h st w)
  note eq = next_step_show[OF shown.hyps(1-3)]
  show ?case
    by (simp add: eq case_prod_beta highlight_widget_def count_list_run_pre_action)
qed

lemma next_step_action_outcome:
  "- 1 \<le> current_step_index g \<Longrightarrow>
   (snd (snd (snd (next_step_action attrs g h))) = Outro_shown \<and>
      int (length (steps g)) \<le> current_step_index (fst (next_step_action attrs g h))) \<or>
   (snd (snd (snd (next_step_action attrs g h))) = Step_shown \<and>
      current_step_index (fst (next_step_action attrs g h)) < int (length (steps g)))"
  using next_step_outcome[of "fst (restore_widget_style g h)" attrs "fst (snd (restore_widget_style g h))"]
  by (simp add: next_step_action_def case_prod_beta restore_widget_style_guide)

lemma start_outcome:
  "- 1 \<le> current_step_index g \<Longrightarrow>
   (snd (snd (snd (start attrs Button_clicked g h))) = Outro_shown \<and>
      int (length (steps g)) \<le> current_step_index (fst (start attrs Button_clicked g h))) \<or>
   (snd (snd (snd (start attrs Button_clicked g h))) = Step_shown \<and>
      current_step_index (fst (start attrs Button_clicked g h)) < int (length (steps g)))"
  using next_step_outcome[of g attrs h]
  by (simp add: start_def case_prod_beta)

lemma guide_run_outro_count:
  "case guide_run attrs gd dir h resp inputs of
     (g, h', evs, oc) \<Rightarrow>
       - 1 \<le> current_step_index g \<and> steps g = steps (init_guide gd dir) \<and>
       outro_message g = outro_message (init_guide gd dir) \<and>
       oc \<noteq> Index_error \<and>
       (oc = Outro_shown) = (int (length (steps g)) \<le> current_step_index g) \<and>
       count_list evs (Message_dialog ''Guide Completed'' (outro_message g) ''Close'')
         = (if oc = Outro_shown then 1 else 0)"
  unfolding guide_run_def
proof (rule run_inputs_invariant, goal_cases)
  case 1
  have i: "- 1 \<le> current_step_index (init_guide gd dir)" by (simp add: init_guide_def)
  show ?case
  proof (cases resp)
    case Dismissed
    then show ?thesis by (simp add: start_def init_guide_def)
  next
    case Button_clicked
    from start_outcome[OF i, of attrs h] start_guide[where attrs=attrs and resp=Button_clicked and g="init_guide gd dir" and h=h]
      next_step_count_outro[of attrs "init_guide gd dir" h] i
    show ?thesis using Button_clicked
      by (auto simp: start_def case_prod_beta)
  qed
next
  case (2 g h evs)
  let ?g1 = "fst (restore_widget_style g h)"
  let ?h1 = "fst (snd (restore_widget_style g h))"
  from 2 have i: "- 1 \<le> current_step_index g" by simp
  from next_step_action_outcome[OF i, of attrs h] next_step_action_guide[where attrs=attrs and g=g and h=h]
    next_step_count_outro[of attrs ?g1 ?h1] 2
  show ?case
    by (auto simp: next_step_action_def case_prod_beta restore_widget_style_guide
        count_list_restore_widget_style)
next
  case (3 g h evs)
  then show ?case
    by (auto simp: skip_guide_action_def case_prod_beta restore_widget_style_guide
        count_list_restore_widget_style)
qed

lemma start_clicked_index_grows:
  "current_step_index g < current_step_index (fst (start attrs Button_clicked g h))"
  using next_step_index_grows[of g attrs h] by (simp add: start_def case_prod_beta)

lemma run_inputs_all_next_completes:
  "- 1 \<le> current_step_index g \<Longrightarrow>
   (oc = Outro_shown \<and> int (length (steps g)) \<le> current_step_index g) \<or>
   (oc = Step_shown \<and> current_step_index g < int (length (steps g))) \<Longrightarrow>
   int (length (steps g)) - current_step_index g \<le> int n \<Longrightarrow>
   snd (snd (snd (run_inputs attrs (replicate n Click_next) (g, h, evs, oc)))) = Outro_shown"
proof (induction n arbitrary: g h evs oc)
  case 0
  then show ?case by auto
next
  case (Suc n)
  show ?case
  proof (cases "oc = Step_shown")
    case False
    with Suc.prems(2) show ?thesis by (simp add: run_inputs_stopped)
  next
    case True
    let ?r = "next_step_action attrs g h"
    have idx: "current_step_index g < current_step_index (fst ?r)"
      and st: "steps (fst ?r) = steps g"
      by (simp_all add: next_step_action_guide)
    have a: "- 1 \<le> current_step_index (fst ?r)" using idx Suc.prems(1) by simp
    have b: "(snd (snd (snd ?r)) = Outro_shown \<and>
               int (length (steps (fst ?r))) \<le> current_step_index (fst ?r)) \<or>
             (snd (snd (snd ?r)) = Step_shown \<and>
               current_step_index (fst ?r) < int (length (steps (fst ?r))))"
      using next_step_action_outcome[OF Suc.prems(1), of attrs h] st by simp
    have c: "int (length (steps (fst ?r))) - current_step_index (fst ?r) \<le> int n"
      using idx st Suc.prems(3) by simp
    from Suc.IH[OF a b c, of "fst (snd ?r)" "evs @ fst (snd (snd ?r))"]
    show ?thesis using True by (simp add: case_prod_beta)
  qed
qed

text \<open>
  C2. A run advanced to completion shows the completion dialog, and shows it exactly once.
  In every run, the dialog titled "Guide Completed" with the outro message and the button
  "Close" has been shown once if the cursor has reached the end of the step list
  (\<^verbatim>\<open>current_step_index >= len(steps)\<close>) and not at all otherwise; and a run in which the
  user presses "Start" and then "Next" at least as often as there are steps does reach
  the end.
\<close>

theorem outro_shown_exactly_once:
  "(case guide_run attrs gd dir h resp inputs of
      (g, h', evs, oc) \<Rightarrow>
        count_list evs
          (Message_dialog ''Guide Completed'' (outro_message (init_guide gd dir)) ''Close'')
        = (if int (length (steps g)) \<le> current_step_index g then 1 else 0)) \<and>
   (case guide_run attrs gd dir h Button_clicked
           (replicate (length (steps (init_guide gd dir)) + k) Click_next) of
      (g, h', evs, oc) \<Rightarrow>
        oc = Outro_shown \<and> int (length (steps g)) \<le> current_step_index g \<and>
        count_list evs
          (Message_dialog ''Guide Completed'' (outro_message (init_guide gd dir)) ''Close'') = 1)"
proof -
  note inv = guide_run_outro_count[where attrs=attrs and gd=gd and dir=dir and h=h]
  have first: "case guide_run attrs gd dir h resp inputs of
      (g, h', evs, oc) \<Rightarrow>
        count_list evs
          (Message_dialog ''Guide Completed'' (outro_message (init_guide gd dir)) ''Close'')
        = (if int (length (steps g)) \<le> current_step_index g then 1 else 0)"
    using inv[of resp inputs] by (auto simp: case_prod_beta)
  let ?g0 = "init_guide gd dir"
  let ?s = "start attrs Button_clicked ?g0 h"
  let ?n = "length (steps ?g0) + k"
  have i: "- 1 \<le> current_step_index ?g0" by (simp add: init_guide_def)
  have st: "steps (fst ?s) = steps ?g0"
    and ge: "current_step_index ?g0 < current_step_index (fst ?s)"
    by (simp_all add: start_guide start_clicked_index_grows)
  have a: "- 1 \<le> current_step_index (fst ?s)" using i ge by simp
  have b: "(snd (snd (snd ?s)) = Outro_shown \<and>
             int (length (steps (fst ?s))) \<le> current_step_index (fst ?s)) \<or>
           (snd (snd (snd ?s)) = Step_shown \<and>
             current_step_index (fst ?s) < int (length (steps (fst ?s))))"
    using start_outcome[OF i, of attrs h] st by simp
  have c: "int (length (steps (fst ?s))) - current_step_index (fst ?s) \<le> int ?n"
    using i ge st by simp
  have "snd (snd (snd (run_inputs attrs (replicate ?n Click_next)
          (fst ?s, fst (snd ?s), fst (snd (snd ?s)), snd (snd (snd ?s)))))) = Outro_shown"
    by (rule run_inputs_all_next_completes[OF a b c])
  then have oc: "snd (snd (snd (guide_run attrs gd dir h Button_clicked (replicate ?n Click_next))))
      = Outro_shown"
    by (simp add: guide_run_def)
  have second: "case guide_run attrs gd dir h Button_clicked (replicate ?n Click_next) of
      (g, h', evs, oc) \<Rightarrow>
        oc = Outro_shown \<and> int (length (steps g)) \<le> current_step_index g \<and>
        count_list evs
          (Message_dialog ''Guide Completed'' (outro_message (init_guide gd dir)) ''Close'') = 1"
    using inv[of Button_clicked "replicate ?n Click_next"] oc
    by (auto simp: case_prod_beta)
  from first second show ?thesis by (rule conjI)
qed

subsection \<open>Termination and progress of \<^verbatim>\<open>next_step\<close>\<close>







lemma sample_guide_steps: "steps sample_guide = [step_save, step_export, step_settings]"
  by (simp add: sample_guide_def init_guide_def sample_data_def order_key_def
        step_save_def step_export_def step_settings_def)

lemma sample_guide_index: "current_step_index sample_guide = - 1"
  by (simp add: sample_guide_def init_guide_def)

lemmas sample_defs = sample_host_def sample_attrs_def show_settings_tab_def
  step_save_def step_export_def step_settings_def




subsection \<open>Highlighting and restoring\<close>

lemma highlight_restore_truthy:
  "widget_truthy h w \<Longrightarrow>
   (case highlight_widget g h w of
      (g1, h1, evs1) \<Rightarrow>
        current_widget g1 = Some w \<and>
        current_widget_original_style g1 = Some (style_sheet h w) \<and>
        style_sheet h1 w = ''border: 3px solid green;'' \<and>
        (case restore_widget_style g1 h1 of
           (g2, h2, evs2) \<Rightarrow>
             h2 = h \<and>
             evs2 = [Info_restoring (widget_object_name h w), Restored w (style_sheet h w)] \<and>
             current_widget g2 = None \<and> current_widget_original_style g2 = None))"
  by (simp add: highlight_widget_def restore_widget_style_def)

text \<open>
  C5. Highlighting a widget and then restoring should be a round trip on its style, and
  for a truthy widget it is. For a falsy widget it is not: \<^verbatim>\<open>highlight_widget\<close> saves the
  style sheet and sets the green border, and \<^verbatim>\<open>restore_widget_style\<close> then takes the
  \<^verbatim>\<open>else\<close> branch, logs "No widget style to restore." and writes nothing back. On the host
  with the empty combo box, whose style sheet is empty, the combo box keeps the green
  border and the guide still holds it.
\<close>

theorem highlight_restore_falsy_widget_not_restored:
  "\<not> widget_truthy combo_host 4 \<and> style_sheet combo_host 4 = [] \<and>
   (case highlight_widget sample_guide combo_host 4 of
      (g1, h1, evs1) \<Rightarrow>
        current_widget_original_style g1 = Some [] \<and>
        (case restore_widget_style g1 h1 of
           (g2, h2, evs2) \<Rightarrow>
             style_sheet h2 4 = ''border: 3px solid green;'' \<and>
             evs2 = [Warn_no_style_to_restore] \<and>
             current_widget g2 = Some 4 \<and> current_widget_original_style g2 = Some []))"
  by (simp add: highlight_widget_def restore_widget_style_def combo_host_def sample_host_def)

subsection \<open>The position of the tooltip\<close>

text \<open>
  C6. The vertical placement of the tooltip. The dialog is put below the widget, at the
  widget's global bottom plus 10, exactly when the y of the widget's global centre is
  strictly less than the y of the host's centre as \<^verbatim>\<open>_calculate_tooltip_position\<close> computes it
  (the host's global origin plus half its height); otherwise it is put above the widget,
  at the widget's global top minus the dialog's height minus 10. The widget's global
  bottom is its global top plus its height minus 1.
\<close>

theorem tooltip_below_iff_widget_in_upper_half:
  "snd (calculate_tooltip_position widget parent (dw, dh)) =
     (if snd (map_to_global widget (center (rect widget)))
           < snd (global_origin parent) + geo_height parent div 2
      then snd (map_to_global widget (bottom_left (rect widget))) + 10
      else snd (map_to_global widget (top_left (rect widget))) - dh - 10) \<and>
   snd (map_to_global widget (bottom_left (rect widget)))
     = snd (global_origin widget) + geo_height widget - 1 \<and>
   snd (map_to_global widget (top_left (rect widget))) = snd (global_origin widget) \<and>
   snd (map_to_global widget (center (rect widget)))
     = snd (global_origin widget) + cpp_div (geo_height widget - 1) 2"
  by (simp add: calculate_tooltip_position_def Let_def map_to_global_def rect_def center_def
        top_left_def bottom_left_def rect_width_def rect_height_def)

text \<open>
  C7, as the code has it. The x of the tooltip is the widget's global centre x minus half
  the dialog's width when the dialog then lies within the host's horizontal extent;
  when it would start left of the host it is the host's left edge plus 10, and when it would
  end right of the host it is the host's right edge minus the dialog's width minus 10. The
  dialog lies within the host's horizontal extent whenever its width plus 10 is at most the
  host's width.
\<close>

theorem tooltip_x_within_host_when_it_fits:
  "fst (calculate_tooltip_position widget parent (dw, dh)) =
     (let x = fst (map_to_global widget (center (rect widget))) - dw div 2;
          px = fst (global_origin parent); pw = geo_width parent
      in if x < px then px + 10 else if x + dw > px + pw then px + pw - dw - 10 else x) \<and>
   (dw + 10 \<le> geo_width parent \<longrightarrow>
      fst (global_origin parent) \<le> fst (calculate_tooltip_position widget parent (dw, dh)) \<and>
      fst (calculate_tooltip_position widget parent (dw, dh)) + dw
        \<le> fst (global_origin parent) + geo_width parent)"
  by (simp add: calculate_tooltip_position_def Let_def map_to_global_def rect_def center_def
        top_left_def bottom_left_def rect_width_def rect_height_def)

theorem tooltip_x_within_host_witness:
  "(500::int) + 10 \<le> geo_width \<lparr>global_origin = (100, 100), geo_width = 700, geo_height = 400\<rparr> \<and>
   fst (calculate_tooltip_position
          \<lparr>global_origin = (110, 110), geo_width = 80, geo_height = 30\<rparr>
          \<lparr>global_origin = (100, 100), geo_width = 700, geo_height = 400\<rparr> (500, 300)) = 110 \<and>
   100 \<le> fst (calculate_tooltip_position
          \<lparr>global_origin = (110, 110), geo_width = 80, geo_height = 30\<rparr>
          \<lparr>global_origin = (100, 100), geo_width = 700, geo_height = 400\<rparr> (500, 300)) \<and>
   fst (calculate_tooltip_position
          \<lparr>global_origin = (110, 110), geo_width = 80, geo_height = 30\<rparr>
          \<lparr>global_origin = (100, 100), geo_width = 700, geo_height = 400\<rparr> (500, 300)) + 500
     \<le> 100 + 700"
  using tooltip_x_within_host_when_it_fits[of
          "\<lparr>global_origin = (110, 110), geo_width = 80, geo_height = 30\<rparr>"
          "\<lparr>global_origin = (100, 100), geo_width = 700, geo_height = 400\<rparr>" 500 300]
  by (simp add: map_to_global_def rect_def center_def cpp_div_def Let_def)

text \<open>
  The claim C7 as stated fails: in a host 400 wide at x = 100, a dialog 395 wide (it would
  fit) anchored to a widget near the left edge is placed at x = 110 and ends at 505, beyond
  the host's right edge at 500.
\<close>

theorem tooltip_x_outside_host_counterexample:
  "fst (calculate_tooltip_position
          \<lparr>global_origin = (120, 120), geo_width = 80, geo_height = 30\<rparr>
          \<lparr>global_origin = (100, 100), geo_width = 400, geo_height = 300\<rparr> (395, 300)) = 110 \<and>
   \<not> (fst (calculate_tooltip_position
          \<lparr>global_origin = (120, 120), geo_width = 80, geo_height = 30\<rparr>
          \<lparr>global_origin = (100, 100), geo_width = 400, geo_height = 300\<rparr> (395, 300)) + 395
        \<le> fst (global_origin \<lparr>global_origin = (100, 100), geo_width = 400, geo_height = 300\<rparr>)
          + geo_width \<lparr>global_origin = (100, 100), geo_width = 400, geo_height = 300\<rparr>)"
  by (simp add: calculate_tooltip_position_def Let_def map_to_global_def rect_def center_def
        top_left_def bottom_left_def rect_width_def rect_height_def cpp_div_def)

subsection \<open>The cursor never moves back\<close>

lemma run_inputs_append:
  "run_inputs attrs (us @ vs) s = run_inputs attrs vs (run_inputs attrs us s)"
proof (induction us arbitrary: s)
  case Nil
  show ?case by simp
next
  case (Cons u us)
  obtain g h evs oc where s: "s = (g, h, evs, oc)" by (cases s)
  show ?case
  proof (cases "oc = Step_shown")
    case True
    with Cons.IH s show ?thesis by (simp add: case_prod_beta)
  next
    case False
    with s show ?thesis by (simp add: run_inputs_stopped)
  qed
qed

lemma run_inputs_index_mono:
  "current_step_index (fst s) \<le> current_step_index (fst (run_inputs attrs us s))"
proof (induction us arbitrary: s)
  case Nil
  show ?case by simp
next
  case (Cons u us)
  obtain g h evs oc where s: "s = (g, h, evs, oc)" by (cases s)
  show ?case
  proof (cases "oc = Step_shown")
    case False
    with s show ?thesis by simp
  next
    case True
    show ?thesis
    proof (cases u)
      case Click_next
      let ?r = "next_step_action attrs g h"
      have "current_step_index g < current_step_index (fst ?r)"
        by (simp add: next_step_action_guide)
      also have "\<dots> \<le> current_step_index (fst (run_inputs attrs us
          (fst ?r, fst (snd ?r), evs @ fst (snd (snd ?r)), snd (snd (snd ?r)))))"
        using Cons.IH[of "(fst ?r, fst (snd ?r), evs @ fst (snd (snd ?r)), snd (snd (snd ?r)))"]
        by simp
      finally show ?thesis using s True Click_next by (simp add: case_prod_beta)
    next
      case Click_skip
      let ?r = "skip_guide_action g h"
      have "current_step_index g = current_step_index (fst ?r)"
        by (simp add: skip_guide_action_guide)
      also have "\<dots> \<le> current_step_index (fst (run_inputs attrs us
          (fst ?r, fst (snd ?r), evs @ fst (snd (snd ?r)), snd (snd (snd ?r)))))"
        using Cons.IH[of "(fst ?r, fst (snd ?r), evs @ fst (snd (snd ?r)), snd (snd (snd ?r)))"]
        by simp
      finally show ?thesis using s True Click_skip by (simp add: case_prod_beta)
    qed
  qed
qed

text \<open>
  C8. The cursor never moves back. \<^verbatim>\<open>__init__\<close> sets \<^verbatim>\<open>current_step_index\<close> to -1; from
  any state, \<^verbatim>\<open>start\<close>, \<^verbatim>\<open>next_step\<close> and \<^verbatim>\<open>next_step_action\<close> leave it unchanged or
  increase it, and \<^verbatim>\<open>skip_guide_action\<close>, \<^verbatim>\<open>restore_widget_style\<close> and \<^verbatim>\<open>highlight_widget\<close>
  leave it unchanged; so along a run, the cursor after more user input is never below the
  cursor after less.
\<close>

theorem current_step_index_never_decreases:
  "current_step_index (init_guide gd dir) = - 1 \<and>
   current_step_index g \<le> current_step_index (fst (start attrs resp g h)) \<and>
   current_step_index g < current_step_index (fst (next_step attrs g h)) \<and>
   current_step_index g < current_step_index (fst (next_step_action attrs g h)) \<and>
   current_step_index (fst (skip_guide_action g h)) = current_step_index g \<and>
   current_step_index (fst (restore_widget_style g h)) = current_step_index g \<and>
   current_step_index (fst (highlight_widget g h w)) = current_step_index g \<and>
   - 1 \<le> current_step_index (fst (guide_run attrs gd dir h resp inputs)) \<and>
   current_step_index (fst (guide_run attrs gd dir h resp inputs))
     \<le> current_step_index (fst (guide_run attrs gd dir h resp (inputs @ later)))"
proof -
  have "current_step_index (init_guide gd dir)
      \<le> current_step_index (fst (start attrs resp (init_guide gd dir) h))"
    by (simp add: start_guide)
  also have "\<dots> \<le> current_step_index (fst (guide_run attrs gd dir h resp inputs))"
    unfolding guide_run_def by (rule run_inputs_index_mono)
  finally have a: "- 1 \<le> current_step_index (fst (guide_run attrs gd dir h resp inputs))"
    by (simp add: init_guide_def)
  have b: "current_step_index (fst (guide_run attrs gd dir h resp inputs))
     \<le> current_step_index (fst (guide_run attrs gd dir h resp (inputs @ later)))"
    unfolding guide_run_def run_inputs_append by (rule run_inputs_index_mono)
  from a b show ?thesis
    by (simp add: start_guide next_step_index_grows next_step_action_guide highlight_widget_def
          skip_guide_action_guide restore_widget_style_guide)
       (simp add: init_guide_def)
qed

subsection \<open>At most one highlighted widget\<close>

lemma overridden_append:
  "overridden ws (a @ b) = overridden (overridden ws a) b"
  by (induction ws a rule: overridden.induct) simp_all

lemma at_most_one_highlighted_append:
  "at_most_one_highlighted ws (a @ b)
     = (at_most_one_highlighted ws a \<and> at_most_one_highlighted (overridden ws a) b)"
proof (induction a arbitrary: ws)
  case Nil
  show ?case by (cases b) auto
next
  case (Cons e a)
  have "overridden ws (e # a) = overridden (overridden ws [e]) a"
    using overridden_append[of ws "[e]" a] by simp
  with Cons show ?case by simp
qed

lemma overridden_run_pre_action:
  "overridden ws (snd (run_pre_action attrs st h)) = ws"
  by (simp add: run_pre_action_def split: option.splits attribute.splits prod.splits)

lemma at_most_one_run_pre_action:
  "at_most_one_highlighted ws (snd (run_pre_action attrs st h)) = (length ws \<le> 1)"
  by (simp add: run_pre_action_def split: option.splits attribute.splits prod.splits)

lemma pre_actions_only_append:
  "pre_actions_only attrs h (a @ b) = pre_actions_only attrs (pre_actions_only attrs h a) b"
  by (induction attrs h a rule: pre_actions_only.induct) simp_all

lemma pre_actions_only_run_pre_action:
  "pre_actions_only attrs h (snd (run_pre_action attrs st h)) = fst (run_pre_action attrs st h)"
  by (simp add: run_pre_action_def split: option.splits attribute.splits prod.splits)

lemma all_truthy_run_pre_action:
  "methods_keep_truthy attrs \<Longrightarrow> all_truthy h \<Longrightarrow> all_truthy (fst (run_pre_action attrs st h))"
  by (auto simp: run_pre_action_def methods_keep_truthy_def
        split: option.splits attribute.splits prod.splits)
     (metis fst_conv)+

lemma next_step_highlights:
  "methods_keep_truthy attrs \<Longrightarrow> all_truthy h \<Longrightarrow>
   all_truthy (pre_actions_only attrs h (fst (snd (snd (next_step attrs g h))))) \<and>
   ((snd (snd (snd (next_step attrs g h))) = Step_shown \<and>
      (\<exists>w. current_widget (fst (next_step attrs g h)) = Some w \<and>
           current_widget_original_style (fst (next_step attrs g h))
             = Some (style_sheet (pre_actions_only attrs h (fst (snd (snd (next_step attrs g h))))) w) \<and>
           fst (snd (next_step attrs g h))
             = (pre_actions_only attrs h (fst (snd (snd (next_step attrs g h)))))
                 \<lparr>style_sheet :=
                    (style_sheet (pre_actions_only attrs h (fst (snd (snd (next_step attrs g h))))))
                      (w := ''border: 3px solid green;'')\<rparr> \<and>
           overridden ws (fst (snd (snd (next_step attrs g h)))) = w # ws) \<and>
      at_most_one_highlighted ws (fst (snd (snd (next_step attrs g h)))) = (ws = [])) \<or>
    (snd (snd (snd (next_step attrs g h))) \<noteq> Step_shown \<and>
      current_widget (fst (next_step attrs g h)) = current_widget g \<and>
      current_widget_original_style (fst (next_step attrs g h)) = current_widget_original_style g \<and>
      fst (snd (next_step attrs g h))
        = pre_actions_only attrs h (fst (snd (snd (next_step attrs g h)))) \<and>
      overridden ws (fst (snd (snd (next_step attrs g h)))) = ws \<and>
      at_most_one_highlighted ws (fst (snd (snd (next_step attrs g h)))) = (length ws \<le> 1)))"
proof (induction attrs g h rule: next_step_cases_induct)
  case (outro attrs g h)
  then show ?case by (simp add: next_step_outro)
next
  case (index_error attrs g h)
  then show ?case by (simp add: next_step_index_error)
next
  case (skip attrs g h st)
  note eq = next_step_skip[OF skip.hyps(1-3)]
  note t = all_truthy_run_pre_action[OF skip.prems, of st]
  from skip.IH[OF skip.prems(1) t] show ?case
    by (auto simp: eq case_prod_beta at_most_one_highlighted_append
        overridden_append overridden_run_pre_action at_most_one_run_pre_action
        pre_actions_only_append pre_actions_only_run_pre_action)
next
  case (shown attrs g h st w)
  note eq = next_step_show[OF shown.hyps(1-3)]
  note t = all_truthy_run_pre_action[OF shown.prems, of st]
  from t show ?case
    by (auto simp: eq case_prod_beta highlight_widget_def at_most_one_highlighted_append
        overridden_append overridden_run_pre_action at_most_one_run_pre_action
        pre_actions_only_append pre_actions_only_run_pre_action fun_upd_def)
qed

lemma restore_widget_style_held:
  "current_widget g = Some w \<Longrightarrow>
   current_widget_original_style g = Some (style_sheet hb w) \<Longrightarrow>
   h = hb\<lparr>style_sheet := (style_sheet hb)(w := c)\<rparr> \<Longrightarrow> widget_truthy hb w \<Longrightarrow>
   restore_widget_style g h =
     (g\<lparr>current_widget := None, current_widget_original_style := None\<rparr>, hb,
      [Info_restoring (widget_object_name hb w), Restored w (style_sheet hb w)])"
  by (simp add: restore_widget_style_def)

lemma guide_run_highlights:
  assumes kt: "methods_keep_truthy attrs" and at: "all_truthy h0"
  shows "case guide_run attrs gd dir h0 resp inputs of
     (g, h, evs, oc) \<Rightarrow>
       all_truthy (pre_actions_only attrs h0 evs) \<and>
       at_most_one_highlighted [] evs \<and>
       overridden [] evs = (case current_widget g of None \<Rightarrow> [] | Some w \<Rightarrow> [w]) \<and>
       (current_widget g = None) = (oc \<noteq> Step_shown) \<and>
       (case current_widget g of
          None \<Rightarrow>
            current_widget_original_style g = None \<and> h = pre_actions_only attrs h0 evs
        | Some w \<Rightarrow>
            current_widget_original_style g
              = Some (style_sheet (pre_actions_only attrs h0 evs) w) \<and>
            h = (pre_actions_only attrs h0 evs)
                  \<lparr>style_sheet := (style_sheet (pre_actions_only attrs h0 evs))
                     (w := ''border: 3px solid green;'')\<rparr>)"
  unfolding guide_run_def
proof (rule run_inputs_invariant, goal_cases)
  case 1
  show ?case
  proof (cases resp)
    case Dismissed
    with at show ?thesis by (simp add: start_def init_guide_def)
  next
    case Button_clicked
    have c: "current_widget (init_guide gd dir) = None"
      "current_widget_original_style (init_guide gd dir) = None"
      by (simp_all add: init_guide_def)
    from next_step_highlights[OF kt at, of "init_guide gd dir" "[]"] c
    show ?thesis using Button_clicked
      by (auto simp: start_def case_prod_beta)
  qed
next
  case (2 g h evs)
  let ?hb = "pre_actions_only attrs h0 evs"
  from 2 obtain w where cw: "current_widget g = Some w" by auto
  from 2 cw have tb: "all_truthy ?hb"
    and amo: "at_most_one_highlighted [] evs"
    and ov: "overridden [] evs = [w]"
    and orig: "current_widget_original_style g = Some (style_sheet ?hb w)"
    and h: "h = ?hb\<lparr>style_sheet := (style_sheet ?hb)(w := ''border: 3px solid green;'')\<rparr>"
    by simp_all
  from tb have tw: "widget_truthy ?hb w" by (simp add: all_truthy_def)
  note r = restore_widget_style_held[OF cw orig h tw]
  let ?g1 = "g\<lparr>current_widget := None, current_widget_original_style := None\<rparr>"
  from next_step_highlights[OF kt tb, of ?g1 "[]"] amo ov
  show ?case
    by (auto simp: next_step_action_def r case_prod_beta at_most_one_highlighted_append
        overridden_append pre_actions_only_append)
next
  case (3 g h evs)
  let ?hb = "pre_actions_only attrs h0 evs"
  from 3 obtain w where cw: "current_widget g = Some w" by auto
  from 3 cw have tb: "all_truthy ?hb"
    and amo: "at_most_one_highlighted [] evs"
    and ov: "overridden [] evs = [w]"
    and orig: "current_widget_original_style g = Some (style_sheet ?hb w)"
    and h: "h = ?hb\<lparr>style_sheet := (style_sheet ?hb)(w := ''border: 3px solid green;'')\<rparr>"
    by simp_all
  from tb have tw: "widget_truthy ?hb w" by (simp add: all_truthy_def)
  note r = restore_widget_style_held[OF cw orig h tw]
  from tb amo ov show ?case
    by (auto simp: skip_guide_action_def r case_prod_beta at_most_one_highlighted_append
        overridden_append pre_actions_only_append)
qed

text \<open>
  C9, as the code has it. Take a run that is driven through the guide's own dialogs
  after a single call of \<^verbatim>\<open>start\<close>, on a host whose widgets are all truthy and whose
  methods keep them so. At every point of its event trace at most one widget's style is
  overridden. The widget overridden at the end is exactly \<^verbatim>\<open>current_widget\<close>; one is held
  exactly while a tooltip is open, so none after "Skip Guide" or the completion dialog.
  The host is what the pre-actions alone have made of it, except that the held widget
  carries the green border; the saved style is the style the held widget has in that
  host. \<^verbatim>\<open>restore_widget_style\<close>, which "Next" and "Skip Guide" call before anything else,
  gives that host back and releases the widget.
\<close>

theorem at_most_one_widget_highlighted:
  assumes "methods_keep_truthy attrs" and "all_truthy h0"
  shows "case guide_run attrs gd dir h0 resp inputs of
     (g, h, evs, oc) \<Rightarrow>
       at_most_one_highlighted [] evs \<and>
       overridden [] evs = (case current_widget g of None \<Rightarrow> [] | Some w \<Rightarrow> [w]) \<and>
       (current_widget g = None) = (oc \<noteq> Step_shown) \<and>
       (case current_widget g of
          None \<Rightarrow>
            current_widget_original_style g = None \<and> h = pre_actions_only attrs h0 evs
        | Some w \<Rightarrow>
            current_widget_original_style g
              = Some (style_sheet (pre_actions_only attrs h0 evs) w) \<and>
            h = (pre_actions_only attrs h0 evs)
                  \<lparr>style_sheet := (style_sheet (pre_actions_only attrs h0 evs))
                     (w := ''border: 3px solid green;'')\<rparr>) \<and>
       (case restore_widget_style g h of
          (g2, h2, evs2) \<Rightarrow>
            h2 = pre_actions_only attrs h0 evs \<and>
            (oc = Step_shown) = (\<exists>w s. evs2 = [Info_restoring (widget_object_name h w), Restored w s]) \<and>
            overridden [] (evs @ evs2) = [])"
proof -
  obtain g h evs oc where r: "guide_run attrs gd dir h0 resp inputs = (g, h, evs, oc)"
    by (cases "guide_run attrs gd dir h0 resp inputs")
  let ?hb = "pre_actions_only attrs h0 evs"
  from guide_run_highlights[OF assms, of gd dir resp inputs] r
  have inv: "all_truthy ?hb" "at_most_one_highlighted [] evs"
    "overridden [] evs = (case current_widget g of None \<Rightarrow> [] | Some w \<Rightarrow> [w])"
    "(current_widget g = None) = (oc \<noteq> Step_shown)"
    "case current_widget g of
       None \<Rightarrow> current_widget_original_style g = None \<and> h = ?hb
     | Some w \<Rightarrow>
         current_widget_original_style g = Some (style_sheet ?hb w) \<and>
         h = ?hb\<lparr>style_sheet := (style_sheet ?hb)(w := ''border: 3px solid green;'')\<rparr>"
    by auto
  have "case restore_widget_style g h of
      (g2, h2, evs2) \<Rightarrow>
        h2 = ?hb \<and>
        (oc = Step_shown) = (\<exists>w s. evs2 = [Info_restoring (widget_object_name h w), Restored w s]) \<and>
        overridden [] (evs @ evs2) = []"
  proof (cases "current_widget g")
    case None
    with inv show ?thesis by (simp add: restore_widget_style_def overridden_append)
  next
    case (Some w)
    with inv have orig: "current_widget_original_style g = Some (style_sheet ?hb w)"
      and h: "h = ?hb\<lparr>style_sheet := (style_sheet ?hb)(w := ''border: 3px solid green;'')\<rparr>"
      by simp_all
    from inv(1) have tw: "widget_truthy ?hb w" by (simp add: all_truthy_def)
    note e = restore_widget_style_held[OF Some orig h tw]
    have n: "widget_object_name h w = widget_object_name ?hb w" using h by simp
    from inv(3,4) Some n show ?thesis by (simp add: e overridden_append)
  qed
  with inv r show ?thesis by simp
qed

lemma sample_first_step:
  "steps g = [step_save, step_export, step_settings] \<Longrightarrow> current_step_index g = - 1 \<Longrightarrow>
   find_child h ''btnSave'' = Some 1 \<Longrightarrow>
   next_step sample_attrs g h =
     (case highlight_widget (g\<lparr>current_step_index := 0\<rparr>) h 1 of
        (g', h', evs) \<Rightarrow>
          (g', h', Visit step_save # evs @ [Step_tooltip 1 step_save], Step_shown))"
  using next_step_show[where g=g and st=step_save and attrs=sample_attrs and h=h and w=1]
  by (simp add: py_index_def run_pre_action_def step_save_def)

lemma sample_second_step:
  "steps g = [step_save, step_export, step_settings] \<Longrightarrow> current_step_index g = 0 \<Longrightarrow>
   find_child h ''btnExport'' = None \<Longrightarrow> find_child h ''tabSettings'' = Some 3 \<Longrightarrow>
   next_step sample_attrs g h =
     (case highlight_widget (g\<lparr>current_step_index := 2\<rparr>) (fst (show_settings_tab h)) 3 of
        (g', h', evs) \<Rightarrow>
          (g', h',
           [Visit step_export, Info_executing_pre_action ''show_settings_tab'',
            Pre_action_called ''show_settings_tab'', Warn_widget_not_found ''btnExport'',
            Visit step_settings, Info_executing_pre_action ''no_such_method'',
            Warn_pre_action_not_callable ''no_such_method'']
             @ evs @ [Step_tooltip 3 step_settings],
           Step_shown))"
proof -
  assume st: "steps g = [step_save, step_export, step_settings]"
    and i: "current_step_index g = 0"
    and e: "find_child h ''btnExport'' = None" and t: "find_child h ''tabSettings'' = Some 3"
  let ?g1 = "g\<lparr>current_step_index := current_step_index g + 1\<rparr>"
  let ?h1 = "fst (show_settings_tab h)"
  have h1: "?h1 = h\<lparr>style_sheet := (style_sheet h)(2 := ''selected'')\<rparr>"
    by (simp add: show_settings_tab_def)
  have on: "object_name step_export = ''btnExport''" "object_name step_settings = ''tabSettings''"
    by (simp_all add: step_export_def step_settings_def)
  have fc: "find_child (fst (show_settings_tab h)) = find_child h"
    by (simp add: show_settings_tab_def)
  have pa: "run_pre_action sample_attrs step_export h =
      (?h1, [Info_executing_pre_action ''show_settings_tab'',
             Pre_action_called ''show_settings_tab''])"
    by (simp add: run_pre_action_def sample_attrs_def step_export_def show_settings_tab_def)
  have pb: "run_pre_action sample_attrs step_settings ?h1 =
      (?h1, [Info_executing_pre_action ''no_such_method'',
             Warn_pre_action_not_callable ''no_such_method''])"
    by (simp add: run_pre_action_def sample_attrs_def step_settings_def)
  have a: "next_step sample_attrs g h =
      (case next_step sample_attrs ?g1 (fst (run_pre_action sample_attrs step_export h)) of
         (g', h', evs, oc) \<Rightarrow>
           (g', h',
            Visit step_export # snd (run_pre_action sample_attrs step_export h)
              @ Warn_widget_not_found (object_name step_export) # evs,
            oc))"
    using st i e
    by (intro next_step_skip) (simp_all add: py_index_def pa on fc)
  have b: "next_step sample_attrs ?g1 ?h1 =
      (case highlight_widget (?g1\<lparr>current_step_index := current_step_index ?g1 + 1\<rparr>)
              (fst (run_pre_action sample_attrs step_settings ?h1)) 3 of
         (g', h', evs) \<Rightarrow>
           (g', h',
            Visit step_settings # snd (run_pre_action sample_attrs step_settings ?h1) @ evs
              @ [Step_tooltip 3 step_settings],
            Step_shown))"
    using st i t
    by (intro next_step_show) (simp_all add: py_index_def pb on fc)
  show ?thesis
    using i a b by (simp add: pa pb on case_prod_beta)
qed

theorem at_most_one_widget_highlighted_witness:
  "methods_keep_truthy sample_attrs \<and> all_truthy sample_host \<and>
   (case guide_run sample_attrs sample_data ''config'' sample_host Button_clicked [Click_next] of
      (g, h, evs, oc) \<Rightarrow>
        oc = Step_shown \<and> current_widget g = Some 3 \<and>
        current_widget_original_style g = Some [] \<and>
        style_sheet h 1 = [] \<and> style_sheet h 2 = ''selected'' \<and>
        style_sheet h 3 = ''border: 3px solid green;'' \<and>
        at_most_one_highlighted [] evs \<and> overridden [] evs = [3])"
proof -
  have kt: "methods_keep_truthy sample_attrs"
    by (auto simp: methods_keep_truthy_def sample_attrs_def show_settings_tab_def all_truthy_def
          split: if_splits)
  have at: "all_truthy sample_host" by (simp add: all_truthy_def sample_host_def)
  let ?h1 = "sample_host\<lparr>style_sheet := (style_sheet sample_host)(1 := ''border: 3px solid green;'')\<rparr>"
  have s1: "start sample_attrs Button_clicked (init_guide sample_data ''config'') sample_host =
      (sample_guide\<lparr>current_step_index := 0, current_widget := Some 1,
                    current_widget_original_style := Some []\<rparr>, ?h1,
       [Message_dialog ''Interactive Guide'' ''Welcome to the guide!'' ''Start'', Dialog_accepted,
        Visit step_save, Info_highlighting ''btnSave'', Highlighted 1, Step_tooltip 1 step_save],
       Step_shown)"
    using sample_first_step[of sample_guide sample_host]
    by (simp add: start_def sample_guide_steps sample_guide_index highlight_widget_def
          sample_host_def) (simp add: sample_guide_def init_guide_def sample_data_def)
  have r: "restore_widget_style
      (sample_guide\<lparr>current_step_index := 0, current_widget := Some w,
                    current_widget_original_style := Some []\<rparr>)
      (sample_host\<lparr>style_sheet := (style_sheet sample_host)(w := c)\<rparr>) =
      (sample_guide\<lparr>current_step_index := 0, current_widget := None,
                    current_widget_original_style := None\<rparr>, sample_host,
       [Info_restoring (widget_object_name sample_host w), Restored w []])" for w c
    by (simp add: restore_widget_style_def sample_host_def fun_upd_idem)
  have s2: "case next_step sample_attrs
        (sample_guide\<lparr>current_step_index := 0, current_widget := None,
                      current_widget_original_style := None\<rparr>) sample_host of
      (g, h, evs, oc) \<Rightarrow>
        oc = Step_shown \<and> current_widget g = Some 3 \<and>
        current_widget_original_style g = Some [] \<and>
        style_sheet h 1 = [] \<and> style_sheet h 2 = ''selected'' \<and>
        style_sheet h 3 = ''border: 3px solid green;''"
    using sample_second_step[of "sample_guide\<lparr>current_step_index := 0, current_widget := None,
        current_widget_original_style := None\<rparr>" sample_host]
    by (simp add: sample_guide_steps highlight_widget_def show_settings_tab_def sample_host_def)
  from at_most_one_widget_highlighted[OF kt at, of sample_data "''config''" Button_clicked
      "[Click_next]"] s2 kt at
  show ?thesis
    by (simp add: guide_run_def s1 next_step_action_def r case_prod_beta)
qed

text \<open>
  The claim C9 as stated fails: nothing keeps \<^verbatim>\<open>start\<close> from being called again while
  a tooltip is open (the tooltip does not block the host's own buttons). After the first
  \<^verbatim>\<open>start\<close> the save button is highlighted; the second \<^verbatim>\<open>start\<close> goes on to the next
  step without restoring it and highlights the settings tab, so two widgets carry the green
  border at once, and the style saved for the first is overwritten.
\<close>

theorem start_twice_two_widgets_highlighted_counterexample:
  "case start sample_attrs Button_clicked sample_guide sample_host of
     (g1, h1, evs1, oc1) \<Rightarrow>
       (case start sample_attrs Button_clicked g1 h1 of
          (g2, h2, evs2, oc2) \<Rightarrow>
            oc1 = Step_shown \<and> current_widget g1 = Some 1 \<and>
            oc2 = Step_shown \<and> current_widget g2 = Some 3 \<and>
            style_sheet h2 1 = ''border: 3px solid green;'' \<and>
            style_sheet h2 3 = ''border: 3px solid green;'' \<and>
            \<not> at_most_one_highlighted [] (evs1 @ evs2))"
proof -
  let ?g1 = "sample_guide\<lparr>current_step_index := 0, current_widget := Some 1,
                           current_widget_original_style := Some []\<rparr>"
  let ?h1 = "sample_host\<lparr>style_sheet := (style_sheet sample_host)(1 := ''border: 3px solid green;'')\<rparr>"
  have s1: "start sample_attrs Button_clicked sample_guide sample_host =
      (?g1, ?h1,
       [Message_dialog ''Interactive Guide'' (intro_message sample_guide) ''Start'', Dialog_accepted,
        Visit step_save, Info_highlighting ''btnSave'', Highlighted 1, Step_tooltip 1 step_save],
       Step_shown)"
    using sample_first_step[of sample_guide sample_host]
    by (simp add: start_def sample_guide_steps sample_guide_index highlight_widget_def
          sample_host_def)
  have s2: "next_step sample_attrs ?g1 ?h1 =
      (case highlight_widget (?g1\<lparr>current_step_index := 2\<rparr>) (fst (show_settings_tab ?h1)) 3 of
         (g', h', evs) \<Rightarrow>
           (g', h',
            [Visit step_export, Info_executing_pre_action ''show_settings_tab'',
             Pre_action_called ''show_settings_tab'', Warn_widget_not_found ''btnExport'',
             Visit step_settings, Info_executing_pre_action ''no_such_method'',
             Warn_pre_action_not_callable ''no_such_method'']
              @ evs @ [Step_tooltip 3 step_settings],
            Step_shown))"
    by (rule sample_second_step) (simp_all add: sample_guide_steps sample_host_def)
  show ?thesis
    unfolding s1
    apply (simp only: prod.case start_def dialog_response.case s2)
    apply (simp add: highlight_widget_def show_settings_tab_def sample_host_def)
    done
qed

subsection \<open>Pre-actions\<close>

lemma pre_action_fails_warns:
  "pre_action_fails attrs st h \<Longrightarrow>
   \<exists>name e. pre_action st = Some name \<and>
     (Warn_pre_action_not_callable name \<in> set (snd (run_pre_action attrs st h)) \<or>
      Warn_pre_action_failed name e \<in> set (snd (run_pre_action attrs st h)))"
  by (auto simp: pre_action_fails_def run_pre_action_def
        split: option.splits attribute.splits prod.splits)

text \<open>
  C4, as the code has it. When the pre-action of the step under the cursor fails (the
  attribute is not callable, or the call raises), a warning is logged and the tour goes
  on, but the step is not skipped for that: the widget is looked up as usual, and the
  step is highlighted and shown when its widget is found. It is passed over only when
  the widget is missing.
\<close>

theorem failing_pre_action_does_not_skip_step:
  assumes "- 1 \<le> current_step_index g"
    and "current_step_index g + 1 < int (length (steps g))"
    and "pre_action_fails attrs (steps g ! nat (current_step_index g + 1)) h"
  shows "case next_step attrs g h of
     (g', h', evs, oc) \<Rightarrow>
       (\<exists>name e. pre_action (steps g ! nat (current_step_index g + 1)) = Some name \<and>
          (Warn_pre_action_not_callable name \<in> set evs \<or>
           Warn_pre_action_failed name e \<in> set evs)) \<and>
       (oc = Outro_shown \<or> oc = Step_shown) \<and>
       (case find_child (fst (run_pre_action attrs (steps g ! nat (current_step_index g + 1)) h))
               (object_name (steps g ! nat (current_step_index g + 1))) of
          Some w \<Rightarrow>
            oc = Step_shown \<and> current_step_index g' = current_step_index g + 1 \<and>
            current_widget g' = Some w \<and>
            last evs = Step_tooltip w (steps g ! nat (current_step_index g + 1))
        | None \<Rightarrow> current_step_index g + 1 < current_step_index g')"
proof -
  let ?st = "steps g ! nat (current_step_index g + 1)"
  let ?pa = "run_pre_action attrs ?st h"
  have n: "\<not> int (length (steps g)) \<le> current_step_index g + 1" using assms(2) by simp
  have p: "py_index (steps g) (current_step_index g + 1) = Some ?st"
    using assms(1,2) by (simp add: py_index_in_range)
  from pre_action_fails_warns[OF assms(3)] obtain name e where
    w: "pre_action ?st = Some name"
       "Warn_pre_action_not_callable name \<in> set (snd ?pa) \<or>
        Warn_pre_action_failed name e \<in> set (snd ?pa)"
    by blast
  have oc: "snd (snd (snd (next_step attrs g h))) = Outro_shown \<or>
            snd (snd (snd (next_step attrs g h))) = Step_shown"
    using next_step_outcome[OF assms(1), of attrs h] by blast
  show ?thesis
  proof (cases "find_child (fst ?pa) (object_name ?st)")
    case None
    note eq = next_step_skip[OF n p None]
    let ?g1 = "g\<lparr>current_step_index := current_step_index g + 1\<rparr>"
    have "current_step_index ?g1 < current_step_index (fst (next_step attrs ?g1 (fst ?pa)))"
      by (rule next_step_index_grows)
    with w oc None show ?thesis
      by (auto simp: eq case_prod_beta)
  next
    case (Some wd)
    note eq = next_step_show[OF n p Some]
    from w Some show ?thesis
      by (auto simp: eq case_prod_beta highlight_widget_def)
  qed
qed


lemma sample_next_step_at_settings:
  "case next_step sample_attrs (sample_guide\<lparr>current_step_index := 1\<rparr>) sample_host of
     (g', h', evs, oc) \<Rightarrow>
       oc = Step_shown \<and> current_step_index g' = 2 \<and> current_widget g' = Some 3 \<and>
       evs = [Visit step_settings, Info_executing_pre_action ''no_such_method'',
              Warn_pre_action_not_callable ''no_such_method'',
              Info_highlighting ''tabSettings'', Highlighted 3,
              Step_tooltip 3 step_settings]"
proof -
  let ?g = "sample_guide\<lparr>current_step_index := 1\<rparr>"
  have "next_step sample_attrs ?g sample_host =
      (case highlight_widget (?g\<lparr>current_step_index := current_step_index ?g + 1\<rparr>)
              (fst (run_pre_action sample_attrs step_settings sample_host)) 3 of
         (g', h', evs) \<Rightarrow>
           (g', h',
            Visit step_settings # snd (run_pre_action sample_attrs step_settings sample_host) @ evs
              @ [Step_tooltip 3 step_settings],
            Step_shown))"
    by (rule next_step_show)
       (simp_all add: sample_guide_steps py_index_def run_pre_action_def sample_defs)
  then show ?thesis
    by (simp add: run_pre_action_def highlight_widget_def sample_defs)
qed

theorem failing_pre_action_witness:
  "- 1 \<le> current_step_index (sample_guide\<lparr>steps := [step_save\<lparr>pre_action := Some ''fail''\<rparr>]\<rparr>) \<and>
   current_step_index (sample_guide\<lparr>steps := [step_save\<lparr>pre_action := Some ''fail''\<rparr>]\<rparr>) + 1
     < int (length (steps (sample_guide\<lparr>steps := [step_save\<lparr>pre_action := Some ''fail''\<rparr>]\<rparr>))) \<and>
   pre_action_fails sample_attrs (step_save\<lparr>pre_action := Some ''fail''\<rparr>) sample_host \<and>
   (case next_step sample_attrs
           (sample_guide\<lparr>steps := [step_save\<lparr>pre_action := Some ''fail''\<rparr>]\<rparr>) sample_host of
      (g', h', evs, oc) \<Rightarrow>
        oc = Step_shown \<and> current_step_index g' = 0 \<and> current_widget g' = Some 1 \<and>
        last evs = Step_tooltip 1 (step_save\<lparr>pre_action := Some ''fail''\<rparr>))"
proof -
  let ?g = "sample_guide\<lparr>steps := [step_save\<lparr>pre_action := Some ''fail''\<rparr>]\<rparr>"
  have a: "- 1 \<le> current_step_index ?g" by (simp add: sample_guide_index)
  have b: "current_step_index ?g + 1 < int (length (steps ?g))" by (simp add: sample_guide_index)
  have c: "pre_action_fails sample_attrs (steps ?g ! nat (current_step_index ?g + 1)) sample_host"
    by (simp add: sample_guide_index pre_action_fails_def sample_attrs_def step_save_def)
  have d: "find_child (fst (run_pre_action sample_attrs (step_save\<lparr>pre_action := Some ''fail''\<rparr>)
      sample_host)) ''btnSave'' = Some 1"
    by (simp add: run_pre_action_def sample_defs)
  from failing_pre_action_does_not_skip_step[OF a b c] a b c d show ?thesis
    by (simp add: sample_guide_index case_prod_beta step_save_def)
qed

text \<open>
  The claim C4 as stated fails: the pre-action of the sample's last step names no
  attribute of the host, the warning is logged, and the step is highlighted and shown all
  the same; the cursor stays on it.
\<close>

theorem failing_pre_action_step_shown_counterexample:
  "pre_action_fails sample_attrs step_settings sample_host \<and>
   py_index (steps sample_guide) 2 = Some step_settings \<and>
   (case next_step sample_attrs (sample_guide\<lparr>current_step_index := 1\<rparr>) sample_host of
      (g', h', evs, oc) \<Rightarrow>
        oc = Step_shown \<and> current_step_index g' = 2 \<and> current_widget g' = Some 3 \<and>
        evs = [Visit step_settings, Info_executing_pre_action ''no_such_method'',
               Warn_pre_action_not_callable ''no_such_method'',
               Info_highlighting ''tabSettings'', Highlighted 3,
               Step_tooltip 3 step_settings])"
  using sample_next_step_at_settings
  by (simp add: pre_action_fails_def sample_attrs_def step_settings_def sample_guide_steps
        py_index_def)

text \<open>
  C10. The pre-action runs before the widget is looked up. When the step under the cursor
  names a method of the host and its widget is missing after the method has run, the
  method has been called, what it did to the host is what the rest of the run starts from,
  and the step is passed over without highlight or tooltip: \<^verbatim>\<open>next_step\<close> continues with the
  following step.
\<close>

theorem pre_action_runs_before_widget_lookup:
  assumes "- 1 \<le> current_step_index g"
    and "current_step_index g + 1 < int (length (steps g))"
    and "pre_action (steps g ! nat (current_step_index g + 1)) = Some name"
    and "name \<noteq> []"
    and "attrs name = Some (Method f)"
    and "find_child (fst (f h)) (object_name (steps g ! nat (current_step_index g + 1))) = None"
  shows "next_step attrs g h =
     (case next_step attrs (g\<lparr>current_step_index := current_step_index g + 1\<rparr>) (fst (f h)) of
        (g', h', evs, oc) \<Rightarrow>
          (g', h',
           Visit (steps g ! nat (current_step_index g + 1))
             # Info_executing_pre_action name # Pre_action_called name
             # (case snd (f h) of None \<Rightarrow> [] | Some e \<Rightarrow> [Warn_pre_action_failed name e])
             @ Warn_widget_not_found (object_name (steps g ! nat (current_step_index g + 1)))
             # evs,
           oc))"
proof -
  let ?st = "steps g ! nat (current_step_index g + 1)"
  have n: "\<not> int (length (steps g)) \<le> current_step_index g + 1" using assms(2) by simp
  have p: "py_index (steps g) (current_step_index g + 1) = Some ?st"
    using assms(1,2) by (simp add: py_index_in_range)
  have pa: "run_pre_action attrs ?st h =
      (fst (f h), Info_executing_pre_action name # Pre_action_called name
         # (case snd (f h) of None \<Rightarrow> [] | Some e \<Rightarrow> [Warn_pre_action_failed name e]))"
    using assms(3-5) by (simp add: run_pre_action_def split: prod.splits option.splits)
  have nf: "find_child (fst (run_pre_action attrs ?st h)) (object_name ?st) = None"
    using assms(6) pa by simp
  show ?thesis
    by (simp add: next_step_skip[OF n p nf] pa case_prod_beta)
qed

theorem pre_action_runs_before_widget_lookup_witness:
  "- 1 \<le> current_step_index (sample_guide\<lparr>current_step_index := 0\<rparr>) \<and>
   current_step_index (sample_guide\<lparr>current_step_index := 0\<rparr>) + 1
     < int (length (steps (sample_guide\<lparr>current_step_index := 0\<rparr>))) \<and>
   pre_action (steps (sample_guide\<lparr>current_step_index := 0\<rparr>) ! 1) = Some ''show_settings_tab'' \<and>
   sample_attrs ''show_settings_tab'' = Some (Method show_settings_tab) \<and>
   find_child (fst (show_settings_tab sample_host)) ''btnExport'' = None \<and>
   style_sheet sample_host 2 = [] \<and>
   style_sheet (fst (show_settings_tab sample_host)) 2 = ''selected'' \<and>
   next_step sample_attrs (sample_guide\<lparr>current_step_index := 0\<rparr>) sample_host =
     (case next_step sample_attrs (sample_guide\<lparr>current_step_index := 1\<rparr>)
             (fst (show_settings_tab sample_host)) of
        (g', h', evs, oc) \<Rightarrow>
          (g', h',
           Visit step_export # Info_executing_pre_action ''show_settings_tab''
             # Pre_action_called ''show_settings_tab''
             # Warn_widget_not_found ''btnExport'' # evs,
           oc))"
proof -
  let ?g = "sample_guide\<lparr>current_step_index := 0\<rparr>"
  have a: "- 1 \<le> current_step_index ?g" by simp
  have b: "current_step_index ?g + 1 < int (length (steps ?g))" by (simp add: sample_guide_steps)
  have c: "pre_action (steps ?g ! nat (current_step_index ?g + 1)) = Some ''show_settings_tab''"
    by (simp add: sample_guide_steps step_export_def)
  have d: "''show_settings_tab'' \<noteq> []" by simp
  have e: "sample_attrs ''show_settings_tab'' = Some (Method show_settings_tab)"
    by (simp add: sample_attrs_def)
  have f: "find_child (fst (show_settings_tab sample_host))
      (object_name (steps ?g ! nat (current_step_index ?g + 1))) = None"
    by (simp add: sample_guide_steps sample_defs)
  from pre_action_runs_before_widget_lookup[where g="?g" and attrs=sample_attrs
      and f=show_settings_tab and h=sample_host and name="''show_settings_tab''", OF a b c d e f]
  show ?thesis
    by (simp add: sample_guide_steps sample_defs)
qed

end
